theory Spec2Isabelle
  imports Main
begin

section \<open>Go strings and the library functions \<open>runCommand\<close> calls\<close>

text \<open>
  A Go string is a sequence of bytes; \<^typ>\<open>string\<close> is a list of 8-bit characters.
  The functions of this section are the ones of Go's standard library that
  \<open>src/main.go\<close> calls (\<open>strings.Join\<close>, \<open>strings.ReplaceAll\<close>,
  \<open>strings.Fields\<close>, \<open>fmt.Sprintf("$%d", _)\<close>), with the behaviour their
  documentation fixes.
\<close>

definition byte :: "char \<Rightarrow> nat" where
  "byte c = of_char c"

definition HasPrefix :: "string \<Rightarrow> string \<Rightarrow> bool" where
  "HasPrefix s p = (take (length p) s = p)"

fun Contains :: "string \<Rightarrow> string \<Rightarrow> bool" where
  "Contains [] sub = (sub = [])"
| "Contains (c # cs) sub = (HasPrefix (c # cs) sub \<or> Contains cs sub)"

fun Join :: "string list \<Rightarrow> string \<Rightarrow> string" where
  "Join [] sep = []"
| "Join [x] sep = x"
| "Join (x # y # ys) sep = x @ sep @ Join (y # ys) sep"

subsection \<open>UTF-8 decoding, as \<open>range\<close> over a string and \<open>utf8.DecodeRuneInString\<close> do it\<close>

definition RuneError :: nat where
  "RuneError = 65533"

definition between :: "nat \<Rightarrow> nat \<Rightarrow> char \<Rightarrow> bool" where
  "between lo hi c = (lo \<le> byte c \<and> byte c \<le> hi)"

definition cont :: "char \<Rightarrow> nat" where
  "cont c = byte c mod 64"

text \<open>
  \<open>DecodeRune s\<close> is the first rune of \<open>s\<close> and its width in bytes. A byte that
  starts no well-formed sequence (a stray continuation byte, an overlong form, a
  surrogate, a value above U+10FFFF, a truncated sequence) decodes as
  \<open>RuneError\<close> of width 1; the empty string as \<open>RuneError\<close> of width 0.
\<close>

fun DecodeRune :: "string \<Rightarrow> nat \<times> nat" where
  "DecodeRune [] = (RuneError, 0)"
| "DecodeRune (c0 # rest) =
     (if byte c0 < 128 then (byte c0, 1)
      else if between 194 223 c0 then
        (case rest of
           c1 # _ \<Rightarrow>
             if between 128 191 c1 then ((byte c0 mod 32) * 64 + cont c1, 2)
             else (RuneError, 1)
         | _ \<Rightarrow> (RuneError, 1))
      else if between 224 239 c0 then
        (case rest of
           c1 # c2 # _ \<Rightarrow>
             if between (if byte c0 = 224 then 160 else 128)
                        (if byte c0 = 237 then 159 else 191) c1
                \<and> between 128 191 c2
             then ((byte c0 mod 16) * 4096 + cont c1 * 64 + cont c2, 3)
             else (RuneError, 1)
         | _ \<Rightarrow> (RuneError, 1))
      else if between 240 244 c0 then
        (case rest of
           c1 # c2 # c3 # _ \<Rightarrow>
             if between (if byte c0 = 240 then 144 else 128)
                        (if byte c0 = 244 then 143 else 191) c1
                \<and> between 128 191 c2 \<and> between 128 191 c3
             then ((byte c0 mod 8) * 262144 + cont c1 * 4096 + cont c2 * 64 + cont c3, 4)
             else (RuneError, 1)
         | _ \<Rightarrow> (RuneError, 1))
      else (RuneError, 1))"

lemma DecodeRune_width: "s \<noteq> [] \<Longrightarrow> 0 < snd (DecodeRune s)"
  by (cases s) (auto split: list.splits)

text \<open>The runes of a string, each with the bytes that encode it.\<close>

function runes :: "string \<Rightarrow> (nat \<times> string) list" where
  "runes s =
     (if s = [] then []
      else (fst (DecodeRune s), take (snd (DecodeRune s)) s)
             # runes (drop (snd (DecodeRune s)) s))"
  by pat_completeness auto
termination
proof (relation "measure length")
  show "wf (measure length)" by simp
next
  fix s :: string
  assume "s \<noteq> []"
  then have "0 < snd (DecodeRune s)" by (rule DecodeRune_width)
  with \<open>s \<noteq> []\<close> show "(drop (snd (DecodeRune s)) s, s) \<in> measure length"
    by (cases s) auto
qed

declare runes.simps [simp del]

text \<open>\<open>unicode.IsSpace\<close>: the code points with Unicode's White_Space property.\<close>

definition IsSpace :: "nat \<Rightarrow> bool" where
  "IsSpace r =
     ((9 \<le> r \<and> r \<le> 13) \<or> r = 32 \<or> r = 133 \<or> r = 160 \<or> r = 5760
      \<or> (8192 \<le> r \<and> r \<le> 8202) \<or> r = 8232 \<or> r = 8233 \<or> r = 8239
      \<or> r = 8287 \<or> r = 12288)"

text \<open>
  \<open>strings.Fields\<close>: the maximal runs of non-space runes, in order. \<open>cur\<close> is the
  field being read (empty when the scan is between fields).
\<close>

fun fieldsOf :: "(nat \<times> string) list \<Rightarrow> string \<Rightarrow> string list" where
  "fieldsOf [] cur = (if cur = [] then [] else [cur])"
| "fieldsOf ((r, bs) # rs) cur =
     (if IsSpace r then (if cur = [] then fieldsOf rs [] else cur # fieldsOf rs [])
      else fieldsOf rs (cur @ bs))"

definition Fields :: "string \<Rightarrow> string list" where
  "Fields s = fieldsOf (runes s) []"

subsection \<open>\<open>strings.ReplaceAll\<close>\<close>

text \<open>
  For a non-empty \<open>old\<close>, \<open>strings.Replace\<close> looks for the leftmost occurrence of
  \<open>old\<close> from the current position, copies the text before it and \<open>new\<close>, and goes
  on after the occurrence: the matches are non-overlapping and the replacement is
  not scanned again.
\<close>

function replaceFrom :: "string \<Rightarrow> string \<Rightarrow> string \<Rightarrow> string" where
  "replaceFrom old new [] = []"
| "replaceFrom old new (c # cs) =
     (if old \<noteq> [] \<and> HasPrefix (c # cs) old
      then new @ replaceFrom old new (drop (length old) (c # cs))
      else c # replaceFrom old new cs)"
  by pat_completeness auto
termination
  by (relation "measure (\<lambda>(old, new, s). length s)") (auto simp: neq_Nil_conv)

text \<open>
  An empty \<open>old\<close> matches at the beginning of the string and after each UTF-8
  sequence; equal \<open>old\<close> and \<open>new\<close> return the string as it is.
\<close>

definition ReplaceAll :: "string \<Rightarrow> string \<Rightarrow> string \<Rightarrow> string" where
  "ReplaceAll s old new =
     (if old = new then s
      else if old = [] then new @ concat (map (\<lambda>(r, bs). bs @ new) (runes s))
      else replaceFrom old new s)"

subsection \<open>\<open>fmt.Sprintf("$%d", i+1)\<close>\<close>

definition digit :: "nat \<Rightarrow> char" where
  "digit d = ''0123456789'' ! d"

function Itoa :: "nat \<Rightarrow> string" where
  "Itoa n = (if n < 10 then [digit n] else Itoa (n div 10) @ [digit (n mod 10)])"
  by pat_completeness auto
termination
  by (relation "measure id") auto

declare Itoa.simps [simp del]

definition placeholder :: "nat \<Rightarrow> string" where
  "placeholder n = CHR ''$'' # Itoa n"

subsection \<open>The substitution loop of \<open>runCommand\<close>\<close>

text \<open>
  \<^verbatim>\<open>for i, arg := range args { command = strings.ReplaceAll(command, fmt.Sprintf("$%d", i+1), arg) }\<close>
  with the loop index \<open>i\<close> explicit: \<open>substFrom i args command\<close> is the loop from
  index \<open>i\<close> on, over the arguments not yet visited.
\<close>

fun substFrom :: "nat \<Rightarrow> string list \<Rightarrow> string \<Rightarrow> string" where
  "substFrom i [] command = command"
| "substFrom i (arg # args) command =
     substFrom (i + 1) args (ReplaceAll command (placeholder (i + 1)) arg)"

definition substitute :: "string list \<Rightarrow> string \<Rightarrow> string" where
  "substitute args command = substFrom 0 args command"


text \<open>
  The contract's own wording of the substitution (spec 4.2, step 2): for each 1-based
  index \<open>i\<close> of \<open>args\<close>, in ascending order, replace the occurrences of \<open>$i\<close>
  by \<open>args[i-1]\<close>. It is compared with the loop of the source below.
\<close>

definition substitute_spec :: "string list \<Rightarrow> string \<Rightarrow> string" where
  "substitute_spec args template =
     foldl (\<lambda>s i. ReplaceAll s (placeholder i) (args ! (i - 1))) template
       [1..<Suc (length args)]"

section \<open>The store: one bbolt bucket, \<open>commands\<close>\<close>

text \<open>
  A bucket holds its entries in the byte order of their keys, one entry per key; it is
  modelled as the list of its entries in that order. \<open>Get\<close> returns \<open>nil\<close>
  (\<open>None\<close>) exactly for a key the bucket does not hold. \<open>Put\<close> refuses an empty key,
  a key above \<open>MaxKeySize\<close> and a value above \<open>MaxValueSize\<close>, and otherwise
  inserts the entry or overwrites the one of the same key.
\<close>

type_synonym bucket = "(string \<times> string) list"

fun bytesLess :: "string \<Rightarrow> string \<Rightarrow> bool" where
  "bytesLess [] [] = False"
| "bytesLess [] (y # ys) = True"
| "bytesLess (x # xs) [] = False"
| "bytesLess (x # xs) (y # ys) = (byte x < byte y \<or> (x = y \<and> bytesLess xs ys))"

definition Get :: "bucket \<Rightarrow> string \<Rightarrow> string option" where
  "Get b key = map_of b key"

fun putEntry :: "string \<Rightarrow> string \<Rightarrow> bucket \<Rightarrow> bucket" where
  "putEntry key val [] = [(key, val)]"
| "putEntry key val ((k, v) # kvs) =
     (if key = k then (key, val) # kvs
      else if bytesLess key k then (key, val) # (k, v) # kvs
      else (k, v) # putEntry key val kvs)"

definition MaxKeySize :: nat where
  "MaxKeySize = 32768"

definition MaxValueSize :: nat where
  "MaxValueSize = 2147483646"

definition putCheck :: "string \<Rightarrow> string \<Rightarrow> string option" where
  "putCheck key val =
     (if length key = 0 then Some ''key required''
      else if length key > MaxKeySize then Some ''key too large''
      else if length val > MaxValueSize then Some ''value too large''
      else None)"

definition Put :: "bucket \<Rightarrow> string \<Rightarrow> string \<Rightarrow> string + bucket" where
  "Put b key val =
     (case putCheck key val of Some err \<Rightarrow> Inl err | None \<Rightarrow> Inr (putEntry key val b))"

definition ForEach :: "bucket \<Rightarrow> (string \<times> string) list" where
  "ForEach b = b"

section \<open>The environment of one invocation\<close>

text \<open>
  What the process meets outside its own code: whether \<open>bolt.Open\<close> fails
  (\<open>open_err\<close>), whether the transaction that creates the bucket fails
  (\<open>init_err\<close>), whether the commit of the handler's read-write transaction fails
  (\<open>commit_err\<close>, a disk or I/O error), and what \<open>cmd.Run()\<close> returns for a
  program and its arguments (\<open>run_err\<close>: \<open>None\<close> when the child ran and exited with
  status 0).
\<close>

record env =
  open_err :: "string option"
  init_err :: "string option"
  commit_err :: "string option"
  run_err :: "string \<Rightarrow> string list \<Rightarrow> string option"

text \<open>
  \<open>db.Update(fn)\<close>: the function's error rolls the transaction back and is
  returned; otherwise the transaction commits, and a failed commit leaves the
  store as it was.
\<close>

definition Update :: "env \<Rightarrow> bucket \<Rightarrow> (bucket \<Rightarrow> string + bucket) \<Rightarrow> string option \<times> bucket" where
  "Update e b fn =
     (case fn b of
        Inl err \<Rightarrow> (Some err, b)
      | Inr b' \<Rightarrow> (case commit_err e of Some err \<Rightarrow> (Some err, b) | None \<Rightarrow> (None, b')))"

section \<open>What the process does, as a trace\<close>

datatype cobra_error = UnknownCommand string | TooFewArgs nat nat

text \<open>
  \<open>Stdout\<close>: text printed by \<open>fmt.Printf\<close> and \<open>fmt.Println\<close>; \<open>Fatal\<close>: the
  message of \<open>log.Fatal\<close>; \<open>Usage\<close>: the error and usage text the command-line
  library prints on its own; \<open>Println\<close>: \<open>fmt.Println(err)\<close> of \<open>main\<close>;
  \<open>HelpText\<close>: \<open>cmd.Help()\<close>; \<open>Spawn\<close>: a child process started with a program
  and its argument vector.
\<close>

datatype event =
    Stdout string
  | Fatal string
  | Usage cobra_error
  | Println cobra_error
  | HelpText
  | Spawn string "string list"

definition line :: "string \<Rightarrow> string" where
  "line s = s @ [CHR 0x0A]"

section \<open>The handlers\<close>

text \<open>\<open>runCommand\<close> (lines 131 to 170). It only reads the store.\<close>

definition runCommand :: "env \<Rightarrow> bucket \<Rightarrow> string \<Rightarrow> string list \<Rightarrow> event list" where
  "runCommand e b alias args =
     (case Get b alias of
        None \<Rightarrow> [Stdout (line ''Error retrieving command: alias not found'')]
      | Some v \<Rightarrow>
          (case Fields (substitute args v) of
             [] \<Rightarrow> [Stdout (line ''Empty command'')]
           | prog # argv \<Rightarrow>
               Spawn prog argv #
                 (case run_err e prog argv of
                    Some err \<Rightarrow> [Stdout (line (''Error executing command: '' @ err))]
                  | None \<Rightarrow> [])))"

text \<open>
  The \<open>Run\<close> closures. Each takes the positional arguments the library hands over
  and returns the store and the trace; \<open>None\<close> is the index-out-of-range panic of
  \<open>args[0]\<close> on an empty list.
\<close>

fun saveCmd_Run :: "env \<Rightarrow> bucket \<Rightarrow> string list \<Rightarrow> (bucket \<times> event list) option" where
  "saveCmd_Run e b [] = None"
| "saveCmd_Run e b (alias # rest) =
     (case Update e b (\<lambda>bk. Put bk alias (Join rest '' '')) of
        (Some err, b') \<Rightarrow> Some (b', [Stdout (line (''Error saving command: '' @ err))])
      | (None, b') \<Rightarrow> Some (b', [Stdout (line (''Command saved with alias: '' @ alias))]))"

definition listCmd_Run :: "env \<Rightarrow> bucket \<Rightarrow> string list \<Rightarrow> (bucket \<times> event list) option" where
  "listCmd_Run e b args =
     Some (b, map (\<lambda>(k, v). Stdout (line (k @ '': '' @ v))) (ForEach b))"

fun editCmd_Run :: "env \<Rightarrow> bucket \<Rightarrow> string list \<Rightarrow> (bucket \<times> event list) option" where
  "editCmd_Run e b [] = None"
| "editCmd_Run e b (alias # rest) =
     (case Update e b
             (\<lambda>bk. if Get bk alias = None then Inl ''alias not found''
                   else Put bk alias (Join rest '' '')) of
        (Some err, b') \<Rightarrow> Some (b', [Stdout (line (''Error editing command: '' @ err))])
      | (None, b') \<Rightarrow> Some (b', [Stdout (line (''Command updated for alias: '' @ alias))]))"

fun runCmd_Run :: "env \<Rightarrow> bucket \<Rightarrow> string list \<Rightarrow> (bucket \<times> event list) option" where
  "runCmd_Run e b [] = None"
| "runCmd_Run e b (alias # rest) = Some (b, runCommand e b alias rest)"

fun rootCmd_Run :: "env \<Rightarrow> bucket \<Rightarrow> string list \<Rightarrow> (bucket \<times> event list) option" where
  "rootCmd_Run e b [] = Some (b, [HelpText])"
| "rootCmd_Run e b (alias # rest) = Some (b, runCommand e b alias rest)"

section \<open>Dispatch by the command-line library (cobra)\<close>

text \<open>
  The part of \<open>rootCmd.Execute()\<close> that decides which \<open>Run\<close> closure is called,
  for a command line without flag syntax. The library drops empty words when it
  looks for the command word (\<open>stripFlags\<close>), looks the first remaining word up
  among the subcommands (\<open>findNext\<close>), and removes its first occurrence from the
  arguments. \<open>rootCmd\<close> declares no \<open>Args\<close> validator and has subcommands, so the
  library's default validation rejects a first word that names no subcommand;
  \<open>save\<close> and \<open>edit\<close> declare \<open>MinimumNArgs(2)\<close>, \<open>run\<close> declares
  \<open>MinimumNArgs(1)\<close>, \<open>list\<close> declares nothing and takes any arguments.

  Words that start with \<open>-\<close> belong to the flag parser, and the command words the
  library registers by itself print the library's own texts: for both, \<open>Execute\<close>
  is \<open>None\<close>, outside this model.
\<close>

datatype command = RootCmd | SaveCmd | ListCmd | EditCmd | RunCmd

definition findNext :: "string \<Rightarrow> command option" where
  "findNext w =
     (if w = ''save'' then Some SaveCmd
      else if w = ''list'' then Some ListCmd
      else if w = ''edit'' then Some EditCmd
      else if w = ''run'' then Some RunCmd
      else None)"

definition stripFlags :: "string list \<Rightarrow> string list" where
  "stripFlags args = filter (\<lambda>s. s \<noteq> []) args"

definition libraryWords :: "string list" where
  "libraryWords = [''help'', ''completion'', ''__complete'', ''__completeNoDesc'']"

definition flagSyntax :: "string list \<Rightarrow> bool" where
  "flagSyntax argv = list_ex (\<lambda>w. HasPrefix w ''-'') argv"

definition MinimumNArgs :: "nat \<Rightarrow> string list \<Rightarrow> cobra_error option" where
  "MinimumNArgs n args = (if length args < n then Some (TooFewArgs n (length args)) else None)"

fun ValidateArgs :: "command \<Rightarrow> string list \<Rightarrow> cobra_error option" where
  "ValidateArgs SaveCmd args = MinimumNArgs 2 args"
| "ValidateArgs EditCmd args = MinimumNArgs 2 args"
| "ValidateArgs RunCmd args = MinimumNArgs 1 args"
| "ValidateArgs ListCmd args = None"
| "ValidateArgs RootCmd args = None"

text \<open>
  \<open>Find\<close>: the command and the arguments left for it, or the library's
  \<open>unknown command\<close> error.
\<close>

definition Find :: "string list \<Rightarrow> cobra_error + (command \<times> string list)" where
  "Find argv =
     (case stripFlags argv of
        [] \<Rightarrow> Inr (RootCmd, argv)
      | w # _ \<Rightarrow>
          (case findNext w of
             Some c \<Rightarrow> Inr (c, remove1 w argv)
           | None \<Rightarrow> Inl (UnknownCommand w)))"

fun Run :: "command \<Rightarrow> env \<Rightarrow> bucket \<Rightarrow> string list \<Rightarrow> (bucket \<times> event list) option" where
  "Run RootCmd = rootCmd_Run"
| "Run SaveCmd = saveCmd_Run"
| "Run ListCmd = listCmd_Run"
| "Run EditCmd = editCmd_Run"
| "Run RunCmd = runCmd_Run"

datatype status = Done | Failed cobra_error | Panicked

definition Execute :: "env \<Rightarrow> bucket \<Rightarrow> string list \<Rightarrow> (bucket \<times> event list \<times> status) option" where
  "Execute e b argv =
     (if flagSyntax argv \<or> (stripFlags argv \<noteq> [] \<and> hd (stripFlags argv) \<in> set libraryWords)
      then None
      else
        (case Find argv of
           Inl err \<Rightarrow> Some (b, [Usage err], Failed err)
         | Inr (c, args) \<Rightarrow>
             (case ValidateArgs c args of
                Some err \<Rightarrow> Some (b, [Usage err], Failed err)
              | None \<Rightarrow>
                  (case Run c e b args of
                     None \<Rightarrow> Some (b, [], Panicked)
                   | Some (b', out) \<Rightarrow> Some (b', out, Done)))))"

section \<open>\<open>main\<close>\<close>

text \<open>
  The store before the invocation, the words after the program name, and the
  environment give the store after it, the trace and the exit status.
  \<open>log.Fatal\<close> exits with status 1, as does \<open>os.Exit(1)\<close> after \<open>Execute\<close>
  returned an error; a run-time panic exits with status 2.
\<close>

definition main :: "env \<Rightarrow> bucket \<Rightarrow> string list \<Rightarrow> (bucket \<times> event list \<times> nat) option" where
  "main e b argv =
     (case open_err e of
        Some err \<Rightarrow> Some (b, [Fatal err], 1)
      | None \<Rightarrow>
          (case init_err e of
             Some err \<Rightarrow> Some (b, [Fatal err], 1)
           | None \<Rightarrow>
               (case Execute e b argv of
                  None \<Rightarrow> None
                | Some (b', out, Done) \<Rightarrow> Some (b', out, 0)
                | Some (b', out, Failed err) \<Rightarrow> Some (b', out @ [Println err], 1)
                | Some (b', out, Panicked) \<Rightarrow> Some (b', out, 2))))"

text \<open>
  The verdict of the command-line library alone: the error \<open>Execute\<close> returns to
  \<open>main\<close> before any \<open>Run\<close> closure is entered, if there is one.
\<close>

definition usageError :: "string list \<Rightarrow> cobra_error option" where
  "usageError argv =
     (case Find argv of Inl err \<Rightarrow> Some err | Inr (c, args) \<Rightarrow> ValidateArgs c args)"

text \<open>An environment in which nothing fails, for the worked examples.\<close>

definition no_faults :: env where
  "no_faults =
     \<lparr>open_err = None, init_err = None, commit_err = None, run_err = (\<lambda>prog args. None)\<rparr>"

text \<open>An environment in which every commit and every child process fails.\<close>

definition faulty :: env where
  "faulty =
     \<lparr>open_err = None, init_err = None, commit_err = Some ''disk full'',
      run_err = (\<lambda>prog args. Some ''exit status 1'')\<rparr>"

section \<open>Lemmas on the string functions\<close>

lemma digit_in: "d < 10 \<Longrightarrow> digit d \<in> set ''0123456789''"
  unfolding digit_def by (rule nth_mem) simp

lemma digit_not_dollar: "d < 10 \<Longrightarrow> digit d \<noteq> CHR ''$'' \<and> CHR ''$'' \<noteq> digit d"
  using digit_in [of d] by auto

lemma Itoa_not_Nil: "Itoa n \<noteq> []"
  by (subst Itoa.simps) simp

lemma dollar_notin_Itoa: "CHR ''$'' \<notin> set (Itoa n)"
proof (induction n rule: Itoa.induct)
  case (1 n)
  show ?case
  proof (cases "n < 10")
    case True
    then show ?thesis by (subst Itoa.simps) (simp add: digit_not_dollar)
  next
    case False
    with 1 show ?thesis by (subst Itoa.simps) (simp add: digit_not_dollar)
  qed
qed

lemma length_Itoa_mono: "i \<le> k \<Longrightarrow> length (Itoa i) \<le> length (Itoa k)"
proof (induction k arbitrary: i rule: Itoa.induct)
  case (1 k)
  show ?case
  proof (cases "k < 10")
    case True
    with 1(2) have "i < 10" by simp
    with True show ?thesis by (simp add: Itoa.simps [of i] Itoa.simps [of k])
  next
    case False
    show ?thesis
    proof (cases "i < 10")
      case True
      with False show ?thesis by (simp add: Itoa.simps [of i] Itoa.simps [of k])
    next
      case i10: False
      from 1(2) have "i div 10 \<le> k div 10" by (rule div_le_mono)
      with 1(1) False have "length (Itoa (i div 10)) \<le> length (Itoa (k div 10))" by simp
      with False i10 show ?thesis by (simp add: Itoa.simps [of i] Itoa.simps [of k])
    qed
  qed
qed

lemma HasPrefix_append_long:
  "length p \<le> length u \<Longrightarrow> HasPrefix (u @ w) p = HasPrefix u p"
  by (simp add: HasPrefix_def)

text \<open>A match cannot straddle a position where the text has the first character of old, when old has it only in first place.\<close>

lemma HasPrefix_straddle:
  assumes "HasPrefix (u @ c # w) (c # ds)" "c \<notin> set ds" "u \<noteq> []"
  shows "length (c # ds) \<le> length u"
proof (rule ccontr)
  assume "\<not> length (c # ds) \<le> length u"
  then have lt: "length u < length (c # ds)" by simp
  from assms(1) have "take (length (c # ds)) (u @ c # w) = c # ds" by (simp add: HasPrefix_def)
  then have "(c # ds) ! length u = (u @ c # w) ! length u"
    using lt by (metis nth_take)
  then have "(c # ds) ! length u = c" by simp
  moreover from assms(3) have "0 < length u" by simp
  ultimately have "ds ! (length u - 1) = c" by (simp add: nth_Cons')
  moreover from lt \<open>0 < length u\<close> have "length u - 1 < length ds" by (cases u) auto
  ultimately have "c \<in> set ds" by (metis nth_mem)
  with assms(2) show False by simp
qed

lemma replaceFrom_append:
  assumes "c \<notin> set ds"
  shows "replaceFrom (c # ds) new (u @ c # w) =
         replaceFrom (c # ds) new u @ replaceFrom (c # ds) new (c # w)"
proof (induction "c # ds" new u rule: replaceFrom.induct)
  case (1 new)
  show ?case by simp
next
  case (2 new x xs)
  show ?case
  proof (cases "HasPrefix ((x # xs) @ c # w) (c # ds)")
    case True
    with assms have len: "length (c # ds) \<le> length (x # xs)"
      by (intro HasPrefix_straddle [of "x # xs" c w ds]) simp_all
    with True have hp: "HasPrefix (x # xs) (c # ds)"
      by (simp only: HasPrefix_append_long)
    from len have "drop (length (c # ds)) ((x # xs) @ c # w) = drop (length (c # ds)) (x # xs) @ c # w"
      by simp
    with 2(1) hp True show ?thesis by simp
  next
    case False
    then have "\<not> HasPrefix (x # xs) (c # ds)"
      by (auto simp: HasPrefix_def take_Cons' split: if_splits dest!: arg_cong [where f = "take (length ds)"]) 
    with 2(2) False show ?thesis by simp
  qed
qed

lemma replaceFrom_skip:
  "old \<noteq> [] \<Longrightarrow> hd old \<notin> set xs \<Longrightarrow> replaceFrom old new (xs @ w) = xs @ replaceFrom old new w"
  by (induction xs) (auto simp: HasPrefix_def neq_Nil_conv take_Cons')

lemma Join_Cons: "Join (x # xs) sep = (if xs = [] then x else x @ sep @ Join xs sep)"
  by (cases xs) simp_all

lemma HasPrefix_length: "HasPrefix u p \<Longrightarrow> length p \<le> length u"
  unfolding HasPrefix_def using length_take [of "length p" u] by simp

lemma HasPrefix_extend: "HasPrefix u p \<Longrightarrow> HasPrefix (u @ w) p"
  using HasPrefix_length [of u p] by (simp add: HasPrefix_def)

lemma take_drop_prefix: "HasPrefix s p \<Longrightarrow> p @ drop (length p) s = s"
  unfolding HasPrefix_def using append_take_drop_id [of "length p" s] by simp

lemma replaceFrom_pieces:
  "old \<noteq> [] \<Longrightarrow>
   \<exists>p ps. Join (p # ps) old = s \<and> list_all (\<lambda>q. \<not> Contains q old) (p # ps)
     \<and> replaceFrom old new s = Join (p # ps) new"
proof (induction old new s rule: replaceFrom.induct)
  case (1 old new)
  then have "Join ([] # []) old = [] \<and> list_all (\<lambda>q. \<not> Contains q old) ([] # [])
     \<and> replaceFrom old new [] = Join ([] # []) new" by simp
  then show ?case by blast
next
  case (2 old new c cs)
  show ?case
  proof (cases "HasPrefix (c # cs) old")
    case True
    with 2 obtain p ps where ih: "Join (p # ps) old = drop (length old) (c # cs)"
      "list_all (\<lambda>q. \<not> Contains q old) (p # ps)"
      "replaceFrom old new (drop (length old) (c # cs)) = Join (p # ps) new"
      by blast
    from True have "old @ drop (length old) (c # cs) = c # cs"
      by (rule take_drop_prefix)
    with ih 2(3) True have "Join ([] # p # ps) old = c # cs
      \<and> list_all (\<lambda>q. \<not> Contains q old) ([] # p # ps)
      \<and> replaceFrom old new (c # cs) = Join ([] # p # ps) new"
      by simp
    then show ?thesis by blast
  next
    case False
    with 2 obtain p ps where ih: "Join (p # ps) old = cs"
      "list_all (\<lambda>q. \<not> Contains q old) (p # ps)"
      "replaceFrom old new cs = Join (p # ps) new"
      by blast
    from ih(1) obtain w where w: "cs = p @ w" by (auto simp: Join_Cons split: if_splits)
    have "\<not> HasPrefix (c # p) old"
    proof
      assume "HasPrefix (c # p) old"
      then have "HasPrefix ((c # p) @ w) old" by (rule HasPrefix_extend)
      with w False show False by simp
    qed
    with ih False have "Join ((c # p) # ps) old = c # cs
      \<and> list_all (\<lambda>q. \<not> Contains q old) ((c # p) # ps)
      \<and> replaceFrom old new (c # cs) = Join ((c # p) # ps) new"
      by (cases ps) auto
    then show ?thesis by blast
  qed
qed

lemma replaceFrom_same_aux: "old = new \<Longrightarrow> replaceFrom old new s = s"
proof (induction old new s rule: replaceFrom.induct)
  case (1 old new)
  show ?case by simp
next
  case (2 old new c cs)
  show ?case
  proof (cases "old \<noteq> [] \<and> HasPrefix (c # cs) old")
    case True
    then have "old @ drop (length old) (c # cs) = c # cs"
      by (simp add: take_drop_prefix)
    with 2(1) 2(3) True show ?thesis by simp
  next
    case False
    with 2(2) 2(3) show ?thesis by auto
  qed
qed

lemma replaceFrom_same: "replaceFrom new new s = s"
  by (simp add: replaceFrom_same_aux)

lemma placeholder_not_Nil: "placeholder i \<noteq> []"
  by (simp add: placeholder_def)

lemma ReplaceAll_placeholder:
  "ReplaceAll s (placeholder i) new = replaceFrom (placeholder i) new s"
proof (cases "placeholder i = new")
  case True
  with replaceFrom_same [of new s] show ?thesis by (simp add: ReplaceAll_def)
next
  case False
  then show ?thesis by (simp add: ReplaceAll_def placeholder_not_Nil)
qed

lemma substFrom_foldl:
  "substFrom i args t =
   foldl (\<lambda>s j. ReplaceAll s (placeholder j) (args ! (j - 1 - i))) t [Suc i..<Suc (i + length args)]"
proof (induction args arbitrary: i t)
  case Nil
  show ?case by simp
next
  case (Cons a as)
  let ?f = "\<lambda>xs k. (\<lambda>s j. ReplaceAll s (placeholder j) (xs ! (j - 1 - k)))"
  have upt: "[Suc i..<Suc (i + length (a # as))] = Suc i # [Suc (Suc i)..<Suc (Suc i + length as)]"
    using upt_conv_Cons [of "Suc i" "Suc (Suc i + length as)"] by (simp del: upt_Suc)
  have cong: "foldl (?f (a # as) i) t' [Suc (Suc i)..<Suc (Suc i + length as)]
     = foldl (?f as (Suc i)) t' [Suc (Suc i)..<Suc (Suc i + length as)]" for t'
    by (rule foldl_cong) (auto simp: nth_Cons' simp del: upt_Suc)
  have "substFrom i (a # as) t = substFrom (Suc i) as (ReplaceAll t (placeholder (Suc i)) a)"
    by simp
  also have "\<dots> = foldl (?f as (Suc i)) (ReplaceAll t (placeholder (Suc i)) a)
      [Suc (Suc i)..<Suc (Suc i + length as)]"
    by (rule Cons.IH)
  also have "\<dots> = foldl (?f (a # as) i) (ReplaceAll t (placeholder (Suc i)) a)
      [Suc (Suc i)..<Suc (Suc i + length as)]"
    by (rule cong [symmetric])
  also have "\<dots> = foldl (?f (a # as) i) t [Suc i..<Suc (i + length (a # as))]"
    unfolding upt by (simp del: upt_Suc)
  finally show ?case .
qed

lemma substitute_refines: "substitute args t = substitute_spec args t"
  using substFrom_foldl [of 0 args t] by (simp add: substitute_def substitute_spec_def)

lemma placeholder_1: "placeholder 1 = ''$1''"
  by (simp add: placeholder_def Itoa.simps digit_def)

lemma placeholder_2: "placeholder 2 = ''$2''"
  by (simp add: placeholder_def Itoa.simps digit_def)

lemma placeholder_10: "placeholder 10 = ''$10''"
  by (simp add: placeholder_def Itoa.simps digit_def)

lemma replaceFrom_keeps_placeholder:
  assumes "\<not> HasPrefix (Itoa k) (Itoa i)" "i \<le> k"
  shows "replaceFrom (placeholder i) new (u @ placeholder k @ v) =
         replaceFrom (placeholder i) new u @ placeholder k @ replaceFrom (placeholder i) new v"
proof -
  let ?old = "CHR ''$'' # Itoa i"
  have len: "length (Itoa i) \<le> length (Itoa k)"
    using assms(2) by (rule length_Itoa_mono)
  have "\<not> HasPrefix (CHR ''$'' # Itoa k @ v) ?old"
  proof
    assume "HasPrefix (CHR ''$'' # Itoa k @ v) ?old"
    then have "take (length (Itoa i)) (Itoa k @ v) = Itoa i" by (simp add: HasPrefix_def)
    with len have "HasPrefix (Itoa k) (Itoa i)" by (simp add: HasPrefix_def)
    with assms(1) show False by simp
  qed
  then have "replaceFrom ?old new (CHR ''$'' # Itoa k @ v) =
             CHR ''$'' # replaceFrom ?old new (Itoa k @ v)"
    by simp
  also have "replaceFrom ?old new (Itoa k @ v) = Itoa k @ replaceFrom ?old new v"
    by (rule replaceFrom_skip) (simp_all add: dollar_notin_Itoa)
  finally have mid: "replaceFrom ?old new (CHR ''$'' # Itoa k @ v) =
                     CHR ''$'' # Itoa k @ replaceFrom ?old new v" .
  have "replaceFrom ?old new (u @ CHR ''$'' # Itoa k @ v) =
        replaceFrom ?old new u @ replaceFrom ?old new (CHR ''$'' # Itoa k @ v)"
    by (rule replaceFrom_append) (rule dollar_notin_Itoa)
  with mid show ?thesis by (simp add: placeholder_def)
qed


lemma substFrom_keeps_placeholder:
  assumes "\<forall>j. i < j \<and> j \<le> i + length args \<longrightarrow> \<not> HasPrefix (Itoa k) (Itoa j)"
    and "i + length args < k"
  shows "substFrom i args (u @ placeholder k @ v) =
         substFrom i args u @ placeholder k @ substFrom i args v"
  using assms
proof (induction args arbitrary: i u v)
  case Nil
  show ?case by simp
next
  case (Cons a as)
  from Cons.prems have np: "\<not> HasPrefix (Itoa k) (Itoa (Suc i))" and le: "Suc i \<le> k"
    by auto
  have step: "replaceFrom (placeholder (Suc i)) a (u @ placeholder k @ v) =
      replaceFrom (placeholder (Suc i)) a u @ placeholder k @ replaceFrom (placeholder (Suc i)) a v"
    using np le by (rule replaceFrom_keeps_placeholder)
  have ih: "substFrom (Suc i) as (u' @ placeholder k @ v') =
      substFrom (Suc i) as u' @ placeholder k @ substFrom (Suc i) as v'" for u' v'
    using Cons.prems by (intro Cons.IH) auto
  show ?case by (simp add: ReplaceAll_placeholder step ih)
qed

lemma replaceFrom_dollar_10:
  "replaceFrom ''$1'' a (u @ ''$10'' @ v) =
   replaceFrom ''$1'' a u @ a @ ''0'' @ replaceFrom ''$1'' a v"
proof -
  have "replaceFrom ''$1'' a (u @ CHR ''$'' # (''10'' @ v)) =
        replaceFrom ''$1'' a u @ replaceFrom ''$1'' a (CHR ''$'' # (''10'' @ v))"
    by (rule replaceFrom_append) simp
  moreover have "replaceFrom ''$1'' a (CHR ''$'' # (''10'' @ v)) = a @ ''0'' @ replaceFrom ''$1'' a v"
    by (simp add: HasPrefix_def)
  ultimately show ?thesis by simp
qed

lemma runes_nonempty: "(r, bs) \<in> set (runes s) \<Longrightarrow> bs \<noteq> []"
proof (induction s rule: runes.induct)
  case (1 s)
  show ?case
  proof (cases "s = []")
    case True
    with 1(2) show ?thesis by (simp add: runes.simps)
  next
    case False
    then have w: "0 < snd (DecodeRune s)" by (rule DecodeRune_width)
    from 1(2) False have "(r, bs) = (fst (DecodeRune s), take (snd (DecodeRune s)) s)
        \<or> (r, bs) \<in> set (runes (drop (snd (DecodeRune s)) s))"
      by (subst (asm) runes.simps) simp
    then show ?thesis
    proof
      assume "(r, bs) = (fst (DecodeRune s), take (snd (DecodeRune s)) s)"
      then have "bs = take (snd (DecodeRune s)) s" by simp
      with False w show ?thesis by simp
    next
      assume "(r, bs) \<in> set (runes (drop (snd (DecodeRune s)) s))"
      with 1(1) False show ?thesis by simp
    qed
  qed
qed

lemma fieldsOf_empty:
  "list_all (\<lambda>(r, bs). bs \<noteq> []) rs \<Longrightarrow>
   (fieldsOf rs cur = []) = (cur = [] \<and> list_all (\<lambda>(r, bs). IsSpace r) rs)"
proof (induction rs arbitrary: cur)
  case Nil
  show ?case by simp
next
  case (Cons x rs)
  obtain r bs where x: "x = (r, bs)" by (cases x)
  from Cons.prems x have bs: "bs \<noteq> []" and rest: "list_all (\<lambda>(r, bs). bs \<noteq> []) rs"
    by simp_all
  show ?case
  proof (cases "IsSpace r")
    case True
    with x Cons.IH [OF rest, of "[]"] show ?thesis by simp
  next
    case False
    with x bs Cons.IH [OF rest, of "cur @ bs"] show ?thesis by simp
  qed
qed

lemma Fields_empty: "(Fields s = []) = list_all (\<lambda>(r, bs). IsSpace r) (runes s)"
proof -
  have "list_all (\<lambda>(r, bs). bs \<noteq> []) (runes s)"
    using runes_nonempty [of _ _ s] by (auto simp: list_all_iff)
  then show ?thesis by (simp add: Fields_def fieldsOf_empty)
qed

section \<open>Lemmas on the store and the dispatch\<close>

lemma Get_putEntry: "Get (putEntry k v b) k' = (if k' = k then Some v else Get b k')"
  by (induction b) (auto simp: Get_def)

lemma putEntry_mem: "(k, v) \<in> set (putEntry k v b)"
  by (induction b) auto

lemma saveCmd_Run_cases:
  "saveCmd_Run e b (alias # rest) =
     (case putCheck alias (Join rest '' '') of
        Some err \<Rightarrow> Some (b, [Stdout (line (''Error saving command: '' @ err))])
      | None \<Rightarrow>
          (case commit_err e of
             Some err \<Rightarrow> Some (b, [Stdout (line (''Error saving command: '' @ err))])
           | None \<Rightarrow> Some (putEntry alias (Join rest '' '') b,
                           [Stdout (line (''Command saved with alias: '' @ alias))])))"
  by (simp add: Update_def Put_def split: option.splits)

lemma editCmd_Run_cases:
  "editCmd_Run e b (alias # rest) =
     (if Get b alias = None
      then Some (b, [Stdout (line ''Error editing command: alias not found'')])
      else case putCheck alias (Join rest '' '') of
        Some err \<Rightarrow> Some (b, [Stdout (line (''Error editing command: '' @ err))])
      | None \<Rightarrow>
          (case commit_err e of
             Some err \<Rightarrow> Some (b, [Stdout (line (''Error editing command: '' @ err))])
           | None \<Rightarrow> Some (putEntry alias (Join rest '' '') b,
                           [Stdout (line (''Command updated for alias: '' @ alias))])))"
  by (simp add: Update_def Put_def split: option.splits)

lemma flagSyntax_Cons: "flagSyntax (w # ws) = (HasPrefix w ''-'' \<or> flagSyntax ws)"
  by (simp add: flagSyntax_def)

lemma Execute_run:
  "\<not> flagSyntax (alias # args) \<Longrightarrow>
   Execute e b (''run'' # alias # args) = Some (b, runCommand e b alias args, Done)"
  by (simp add: Execute_def flagSyntax_Cons HasPrefix_def stripFlags_def libraryWords_def
      Find_def findNext_def MinimumNArgs_def)

lemma Execute_save:
  "\<not> flagSyntax (alias # w # ws) \<Longrightarrow> saveCmd_Run e b (alias # w # ws) = Some (b', out) \<Longrightarrow>
   Execute e b (''save'' # alias # w # ws) = Some (b', out, Done)"
  by (simp add: Execute_def flagSyntax_Cons HasPrefix_def stripFlags_def libraryWords_def
      Find_def findNext_def MinimumNArgs_def del: saveCmd_Run.simps)

lemma Execute_edit:
  "\<not> flagSyntax (alias # w # ws) \<Longrightarrow> editCmd_Run e b (alias # w # ws) = Some (b', out) \<Longrightarrow>
   Execute e b (''edit'' # alias # w # ws) = Some (b', out, Done)"
  by (simp add: Execute_def flagSyntax_Cons HasPrefix_def stripFlags_def libraryWords_def
      Find_def findNext_def MinimumNArgs_def del: editCmd_Run.simps)

lemma Execute_list:
  "\<not> flagSyntax args \<Longrightarrow>
   Execute e b (''list'' # args) =
     Some (b, map (\<lambda>(k, v). Stdout (line (k @ '': '' @ v))) (ForEach b), Done)"
  by (simp add: Execute_def flagSyntax_Cons HasPrefix_def stripFlags_def libraryWords_def
      Find_def findNext_def listCmd_Run_def)

lemma main_Execute:
  "open_err e = None \<Longrightarrow> init_err e = None \<Longrightarrow> Execute e b argv = Some (b', out, Done) \<Longrightarrow>
   main e b argv = Some (b', out, 0)"
  by (simp add: main_def)

lemma Run_total: "ValidateArgs c args = None \<Longrightarrow> \<exists>b' out. Run c e b args = Some (b', out)"
proof (cases c)
  case RootCmd
  then show ?thesis by (cases args) simp_all
next
  case SaveCmd
  assume "ValidateArgs c args = None"
  with SaveCmd obtain a rest where "args = a # rest"
    by (cases args) (simp_all add: MinimumNArgs_def)
  with SaveCmd show ?thesis by (simp add: saveCmd_Run_cases del: saveCmd_Run.simps split: option.splits)
next
  case ListCmd
  then show ?thesis by (simp add: listCmd_Run_def)
next
  case EditCmd
  assume "ValidateArgs c args = None"
  with EditCmd obtain a rest where "args = a # rest"
    by (cases args) (simp_all add: MinimumNArgs_def)
  with EditCmd show ?thesis by (simp add: editCmd_Run_cases del: editCmd_Run.simps split: option.splits)
next
  case RunCmd
  assume "ValidateArgs c args = None"
  with RunCmd obtain a rest where "args = a # rest"
    by (cases args) (simp_all add: MinimumNArgs_def)
  with RunCmd show ?thesis by simp
qed

lemma Execute_status:
  assumes "Execute e b argv = Some (b', out, st)"
  shows "(st = Done \<and> usageError argv = None)
       \<or> (\<exists>err. st = Failed err \<and> usageError argv = Some err \<and> b' = b \<and> out = [Usage err])"
proof (cases "Find argv")
  case (Inl err)
  with assms show ?thesis
    by (auto simp: Execute_def usageError_def split: if_splits)
next
  case (Inr p)
  obtain c args where p: "p = (c, args)" by (cases p)
  show ?thesis
  proof (cases "ValidateArgs c args")
    case (Some err)
    with assms Inr p show ?thesis
      by (auto simp: Execute_def usageError_def split: if_splits)
  next
    case None
    then obtain b1 out1 where "Run c e b args = Some (b1, out1)"
      using Run_total by blast
    with assms Inr p None show ?thesis
      by (auto simp: Execute_def usageError_def split: if_splits)
  qed
qed

lemma main_exit_code:
  assumes "main e b argv = Some (b', out, code)"
  shows "(code \<noteq> 0) = (open_err e \<noteq> None \<or> init_err e \<noteq> None \<or> usageError argv \<noteq> None)"
    and "code = 0 \<or> code = 1"
proof -
  show "(code \<noteq> 0) = (open_err e \<noteq> None \<or> init_err e \<noteq> None \<or> usageError argv \<noteq> None)"
  proof (cases "open_err e = None \<and> init_err e = None")
    case False
    with assms show ?thesis by (auto simp: main_def split: option.splits)
  next
    case True
    with assms obtain b1 out1 st where ex: "Execute e b argv = Some (b1, out1, st)"
      by (auto simp: main_def split: option.splits)
    from Execute_status [OF ex] True assms ex show ?thesis
      by (auto simp: main_def)
  qed
  show "code = 0 \<or> code = 1"
  proof (cases "open_err e = None \<and> init_err e = None")
    case False
    with assms show ?thesis by (auto simp: main_def split: option.splits)
  next
    case True
    with assms obtain b1 out1 st where ex: "Execute e b argv = Some (b1, out1, st)"
      by (auto simp: main_def split: option.splits)
    from Execute_status [OF ex] True assms ex show ?thesis
      by (auto simp: main_def)
  qed
qed

section \<open>Worked evaluations\<close>

lemmas eval_strings =
  substitute_def placeholder_def Itoa.simps digit_def ReplaceAll_def HasPrefix_def
  Fields_def runes.simps IsSpace_def byte_def

lemma runCommand_spawn:
  "Get b alias = Some t \<Longrightarrow> Fields (substitute args t) = prog # argv \<Longrightarrow>
   runCommand e b alias args =
     Spawn prog argv #
       (case run_err e prog argv of
          Some err \<Rightarrow> [Stdout (line (''Error executing command: '' @ err))]
        | None \<Rightarrow> [])"
  by (simp add: runCommand_def)

lemma Fields_echo_a_b:
  "Fields (substitute [''a'', ''b''] ''echo $1 $2'') = [''echo'', ''a'', ''b'']"
  by (simp add: eval_strings)

lemma Fields_echo_a:
  "Fields (substitute [''a''] ''echo $1 $2'') = [''echo'', ''a'', ''$2'']"
  by (simp add: eval_strings)

lemma substitute_resubst: "substitute [a1, a2] ''$1'' = ReplaceAll a1 ''$2'' a2"
proof -
  have "ReplaceAll ''$1'' ''$1'' a1 = a1"
    by (simp add: ReplaceAll_def HasPrefix_def)
  then show ?thesis by (simp add: substitute_def placeholder_def Itoa.simps digit_def)
qed

lemma ReplaceAll_dollar_1: "ReplaceAll s ''$1'' a = replaceFrom ''$1'' a s"
  using ReplaceAll_placeholder [of s 1 a] by (simp only: placeholder_1)

lemma main_run:
  "open_err e = None \<Longrightarrow> init_err e = None \<Longrightarrow> \<not> flagSyntax (alias # args) \<Longrightarrow>
   main e b (''run'' # alias # args) = Some (b, runCommand e b alias args, 0)"
  by (rule main_Execute) (simp_all add: Execute_run)

lemma main_edit:
  "open_err e = None \<Longrightarrow> init_err e = None \<Longrightarrow> \<not> flagSyntax (alias # w # ws) \<Longrightarrow>
   editCmd_Run e b (alias # w # ws) = Some (b', out) \<Longrightarrow>
   main e b (''edit'' # alias # w # ws) = Some (b', out, 0)"
  by (rule main_Execute) (simp_all add: Execute_edit del: editCmd_Run.simps)

lemma main_save:
  "open_err e = None \<Longrightarrow> init_err e = None \<Longrightarrow> \<not> flagSyntax (alias # w # ws) \<Longrightarrow>
   saveCmd_Run e b (alias # w # ws) = Some (b', out) \<Longrightarrow>
   main e b (''save'' # alias # w # ws) = Some (b', out, 0)"
  by (rule main_Execute) (simp_all add: Execute_save del: saveCmd_Run.simps)

lemmas eval_dispatch =
  main_def Execute_def flagSyntax_def HasPrefix_def stripFlags_def libraryWords_def
  Find_def findNext_def MinimumNArgs_def usageError_def

lemma HasPrefix_straddle_at:
  assumes "HasPrefix (u @ x # w) (c # ds)" "x \<notin> set ds" "u \<noteq> []"
  shows "length (c # ds) \<le> length u"
proof (rule ccontr)
  assume "\<not> length (c # ds) \<le> length u"
  then have lt: "length u < length (c # ds)" by simp
  from assms(1) have "take (length (c # ds)) (u @ x # w) = c # ds" by (simp add: HasPrefix_def)
  then have "(c # ds) ! length u = (u @ x # w) ! length u"
    using lt by (metis nth_take)
  then have "(c # ds) ! length u = x" by simp
  moreover from assms(3) have "0 < length u" by simp
  ultimately have "ds ! (length u - 1) = x" by (simp add: nth_Cons')
  moreover from lt \<open>0 < length u\<close> have "length u - 1 < length ds" by (cases u) auto
  ultimately have "x \<in> set ds" by (metis nth_mem)
  with assms(2) show False by simp
qed

lemma replaceFrom_append_at:
  assumes "x \<notin> set ds"
  shows "replaceFrom (c # ds) new (u @ x # w) =
         replaceFrom (c # ds) new u @ replaceFrom (c # ds) new (x # w)"
proof (induction "c # ds" new u rule: replaceFrom.induct)
  case (1 new)
  show ?case by simp
next
  case (2 new y ys)
  show ?case
  proof (cases "HasPrefix ((y # ys) @ x # w) (c # ds)")
    case True
    with assms have len: "length (c # ds) \<le> length (y # ys)"
      by (intro HasPrefix_straddle_at [of "y # ys" x w c ds]) simp_all
    with True have hp: "HasPrefix (y # ys) (c # ds)"
      by (simp only: HasPrefix_append_long)
    from len have "drop (length (c # ds)) ((y # ys) @ x # w) = drop (length (c # ds)) (y # ys) @ x # w"
      by simp
    with 2(1) hp True show ?thesis by simp
  next
    case False
    have "\<not> HasPrefix (y # ys) (c # ds)"
    proof
      assume "HasPrefix (y # ys) (c # ds)"
      then have "HasPrefix ((y # ys) @ x # w) (c # ds)" by (rule HasPrefix_extend)
      with False show False by simp
    qed
    with 2(2) False show ?thesis by simp
  qed
qed

lemma set_Itoa_digits: "set (Itoa n) \<subseteq> set ''0123456789''"
proof (induction n rule: Itoa.induct)
  case (1 n)
  show ?case
  proof (cases "n < 10")
    case True
    then show ?thesis using digit_in [of n] by (subst Itoa.simps) simp
  next
    case False
    moreover have "digit (n mod 10) \<in> set ''0123456789''" by (rule digit_in) simp
    ultimately show ?thesis using 1 by (subst Itoa.simps) simp
  qed
qed

lemma replaceFrom_keeps_plain:
  assumes "a \<noteq> []" and "hd a \<notin> set ''0123456789''" and "CHR ''$'' \<notin> set a"
  shows "replaceFrom (placeholder j) new (u @ a @ CHR ''0'' # v) =
         replaceFrom (placeholder j) new u @ a @ CHR ''0'' # replaceFrom (placeholder j) new v"
proof -
  let ?old = "CHR ''$'' # Itoa j"
  from assms(1) obtain x xs where a: "a = x # xs" by (cases a) auto
  from assms(2) a set_Itoa_digits [of j] have x: "x \<notin> set (Itoa j)" by auto
  have "replaceFrom ?old new (u @ x # (xs @ CHR ''0'' # v)) =
        replaceFrom ?old new u @ replaceFrom ?old new (x # (xs @ CHR ''0'' # v))"
    using x by (rule replaceFrom_append_at)
  moreover have "replaceFrom ?old new ((a @ ''0'') @ v) = (a @ ''0'') @ replaceFrom ?old new v"
    by (rule replaceFrom_skip) (use assms(3) in simp_all)
  ultimately show ?thesis using a by (simp add: placeholder_def)
qed

lemma substFrom_keeps_plain:
  assumes "a \<noteq> []" and "hd a \<notin> set ''0123456789''" and "CHR ''$'' \<notin> set a"
  shows "substFrom i rest (u @ a @ CHR ''0'' # v) =
         substFrom i rest u @ a @ CHR ''0'' # substFrom i rest v"
proof (induction rest arbitrary: i u v)
  case Nil
  show ?case by simp
next
  case (Cons r rest)
  have step: "replaceFrom (placeholder (Suc i)) r (u @ a @ CHR ''0'' # v) =
      replaceFrom (placeholder (Suc i)) r u @ a @ CHR ''0'' # replaceFrom (placeholder (Suc i)) r v"
    using assms by (rule replaceFrom_keeps_plain)
  show ?case by (simp add: ReplaceAll_placeholder step Cons.IH)
qed

lemma substitute_dollar_10_plain:
  assumes "a \<noteq> []" and "hd a \<notin> set ''0123456789''" and "CHR ''$'' \<notin> set a"
  shows "substitute (a # rest) (u @ ''$10'' @ v) =
         substitute (a # rest) u @ a @ ''0'' @ substitute (a # rest) v"
proof -
  have p1: "placeholder (Suc 0) = ''$1''" using placeholder_1 by simp
  have pass: "replaceFrom ''$1'' a (u @ ''$10'' @ v) =
      replaceFrom ''$1'' a u @ a @ CHR ''0'' # replaceFrom ''$1'' a v"
    using replaceFrom_dollar_10 [of a u v] by simp
  have "substitute (a # rest) (u @ ''$10'' @ v) =
      substFrom (Suc 0) rest (replaceFrom ''$1'' a (u @ ''$10'' @ v))"
    by (simp add: substitute_def p1 ReplaceAll_dollar_1 del: append.simps)
  also have "\<dots> = substFrom (Suc 0) rest (replaceFrom ''$1'' a u @ a @ CHR ''0'' # replaceFrom ''$1'' a v)"
    by (simp only: pass)
  also have "\<dots> = substFrom (Suc 0) rest (replaceFrom ''$1'' a u) @ a @ CHR ''0''
      # substFrom (Suc 0) rest (replaceFrom ''$1'' a v)"
    using assms by (rule substFrom_keeps_plain)
  also have "\<dots> = substitute (a # rest) u @ a @ ''0'' @ substitute (a # rest) v"
    by (simp add: substitute_def p1 ReplaceAll_dollar_1)
  finally show ?thesis .
qed

section \<open>The claims\<close>

text \<open>
  C1. For every stored template and every argument list, the substitution of
  \<open>runCommand\<close> visits the indices 1, 2, ... of \<open>args\<close> in ascending order and,
  at each index \<open>i\<close>, replaces every occurrence of the text \<open>$i\<close> in the current
  string by \<open>args[i-1]\<close>, as plain text. The loop of the source computes what the
  contract's wording (\<open>substitute_spec\<close>) says. One pass replaces every occurrence:
  the string is cut at its occurrences of \<open>$i\<close> into pieces that hold no
  occurrence, and the result is the same pieces with the argument between them.
  The template \<open>echo $1 $2\<close> with arguments \<open>a\<close>, \<open>b\<close> starts the program \<open>echo\<close>
  with the arguments \<open>a\<close>, \<open>b\<close>. An argument that holds a placeholder of a
  higher index is substituted again by the later pass: the template \<open>$1\<close> with
  arguments \<open>a1\<close>, \<open>a2\<close> gives \<open>a1\<close> with its \<open>$2\<close> replaced by \<open>a2\<close>.
\<close>

theorem C1_substitution:
  "substitute args t = substitute_spec args t
   \<and> (\<exists>p ps. Join (p # ps) (placeholder i) = s
         \<and> list_all (\<lambda>q. \<not> Contains q (placeholder i)) (p # ps)
         \<and> ReplaceAll s (placeholder i) new = Join (p # ps) new)
   \<and> (Get b alias = Some ''echo $1 $2'' \<longrightarrow>
        runCommand e b alias [''a'', ''b''] =
          Spawn ''echo'' [''a'', ''b''] #
            (case run_err e ''echo'' [''a'', ''b''] of
               Some err \<Rightarrow> [Stdout (line (''Error executing command: '' @ err))]
             | None \<Rightarrow> []))
   \<and> substitute [a1, a2] ''$1'' = ReplaceAll a1 ''$2'' a2
   \<and> substitute [''$2'', ''b''] ''echo $1'' = ''echo b''"
proof (intro conjI impI)
  show "substitute args t = substitute_spec args t" by (rule substitute_refines)
next
  show "\<exists>p ps. Join (p # ps) (placeholder i) = s
         \<and> list_all (\<lambda>q. \<not> Contains q (placeholder i)) (p # ps)
         \<and> ReplaceAll s (placeholder i) new = Join (p # ps) new"
    using replaceFrom_pieces [OF placeholder_not_Nil, of i s new]
    by (simp only: ReplaceAll_placeholder)
next
  assume "Get b alias = Some ''echo $1 $2''"
  then show "runCommand e b alias [''a'', ''b''] =
          Spawn ''echo'' [''a'', ''b''] #
            (case run_err e ''echo'' [''a'', ''b''] of
               Some err \<Rightarrow> [Stdout (line (''Error executing command: '' @ err))]
             | None \<Rightarrow> [])"
    by (rule runCommand_spawn [OF _ Fields_echo_a_b])
next
  show "substitute [a1, a2] ''$1'' = ReplaceAll a1 ''$2'' a2" by (rule substitute_resubst)
next
  show "substitute [''$2'', ''b''] ''echo $1'' = ''echo b''" by (simp add: eval_strings)
qed

theorem C1_substitution_witness:
  "substitute [''a'', ''b''] ''echo $1 $2'' = substitute_spec [''a'', ''b''] ''echo $1 $2''
   \<and> ReplaceAll ''echo $1 $2'' ''$1'' ''a'' = ''echo a $2''
   \<and> runCommand no_faults [(''x'', ''echo $1 $2'')] ''x'' [''a'', ''b''] = [Spawn ''echo'' [''a'', ''b'']]
   \<and> substitute [''$2'', ''b''] ''$1'' = ''b''"
  using C1_substitution [of "[''a'', ''b'']" "''echo $1 $2''" 1 "''echo $1 $2''" "''a''"
      "[(''x'', ''echo $1 $2'')]" "''x''" no_faults "''$2''" "''b''"]
  by (simp add: Get_def no_faults_def eval_strings)

text \<open>
  C9 (as amended). A placeholder \<open>$k\<close> whose index is above the number of arguments
  is left as it is, with the text before it and the text after it substituted on
  their own, when no index \<open>j\<close> of an argument has a decimal numeral that begins
  the numeral of \<open>k\<close> (so every \<open>$k\<close> with \<open>k\<close> up to 9, and \<open>$10\<close> only when
  there is no argument at all). No error is raised: the template \<open>echo $1 $2\<close>
  with the argument \<open>a\<close> gives \<open>echo a $2\<close> and starts \<open>echo\<close> with the
  arguments \<open>a\<close>, \<open>$2\<close>.
\<close>

theorem C9_missing_placeholders:
  assumes "length args < k"
    and "list_all (\<lambda>j. \<not> HasPrefix (Itoa k) (Itoa j)) [1..<Suc (length args)]"
  shows "substitute args (u @ placeholder k @ v) =
           substitute args u @ placeholder k @ substitute args v
       \<and> substitute [''a''] ''echo $1 $2'' = ''echo a $2''
       \<and> (Get b alias = Some ''echo $1 $2'' \<longrightarrow>
            runCommand e b alias [''a''] =
              Spawn ''echo'' [''a'', ''$2''] #
                (case run_err e ''echo'' [''a'', ''$2''] of
                   Some err \<Rightarrow> [Stdout (line (''Error executing command: '' @ err))]
                 | None \<Rightarrow> []))"
proof (intro conjI impI)
  from assms(2) have "\<forall>j. 0 < j \<and> j \<le> 0 + length args \<longrightarrow> \<not> HasPrefix (Itoa k) (Itoa j)"
    by (auto simp: list_all_iff simp del: upt_Suc)
  moreover from assms(1) have "0 + length args < k" by simp
  ultimately have "substFrom 0 args (u @ placeholder k @ v) =
      substFrom 0 args u @ placeholder k @ substFrom 0 args v"
    by (rule substFrom_keeps_placeholder)
  then show "substitute args (u @ placeholder k @ v) =
           substitute args u @ placeholder k @ substitute args v"
    by (simp add: substitute_def)
next
  show "substitute [''a''] ''echo $1 $2'' = ''echo a $2''" by (simp add: eval_strings)
next
  assume "Get b alias = Some ''echo $1 $2''"
  then show "runCommand e b alias [''a''] =
              Spawn ''echo'' [''a'', ''$2''] #
                (case run_err e ''echo'' [''a'', ''$2''] of
                   Some err \<Rightarrow> [Stdout (line (''Error executing command: '' @ err))]
                 | None \<Rightarrow> [])"
    by (rule runCommand_spawn [OF _ Fields_echo_a])
qed

theorem C9_missing_placeholders_witness:
  "length [''a''] < 2
   \<and> list_all (\<lambda>j. \<not> HasPrefix (Itoa 2) (Itoa j)) [1..<Suc (length [''a''])]
   \<and> substitute [''a''] (''echo $1 '' @ placeholder 2 @ '' $1'') = ''echo a $2 a''
   \<and> runCommand no_faults [(''x'', ''echo $1 $2'')] ''x'' [''a''] = [Spawn ''echo'' [''a'', ''$2'']]"
proof -
  have h1: "length [''a''] < 2" by simp
  have h2: "list_all (\<lambda>j. \<not> HasPrefix (Itoa 2) (Itoa j)) [1..<Suc (length [''a''])]"
    by (simp add: Itoa.simps digit_def HasPrefix_def)
  from C9_missing_placeholders [OF h1 h2, of "''echo $1 ''" "'' $1''" "[(''x'', ''echo $1 $2'')]" "''x''" no_faults]
  show ?thesis
    using h2 by (simp add: Get_def no_faults_def eval_strings)
qed

theorem C9_counterexample:
  "length [''a''] < 10
   \<and> substitute [''a''] ''echo $10'' = ''echo a0''
   \<and> \<not> Contains (substitute [''a''] ''echo $10'') ''$10''"
  by (simp add: eval_strings)

text \<open>
  C10 (as amended). Multi-digit placeholders collide with their one-digit
  prefix. For every text \<open>u @ $10 @ v\<close> and every first argument \<open>a\<close>, the pass
  for \<open>$1\<close> rewrites the \<open>$1\<close> at the head of the \<open>$10\<close>: after that pass the
  occurrence reads \<open>a\<close> followed by the character \<open>0\<close>, and every later pass,
  the tenth among them, works on that string. When \<open>a\<close> is not empty, holds no
  \<open>$\<close> and does not begin with a digit, no later pass touches that place: in the
  final string the occurrence is \<open>a\<close> followed by \<open>0\<close>, between the substituted
  \<open>u\<close> and the substituted \<open>v\<close>, and the tenth argument is not substituted for
  it. With ten arguments \<open>a\<close> to \<open>j\<close> the template \<open>echo $10\<close> gives \<open>echo a0\<close>,
  not \<open>echo j\<close>. (A first argument that writes the text \<open>$10\<close> again, such as
  \<open>$1\<close>, is replaced by the tenth pass: see the counterexample.)
\<close>

theorem C10_dollar_10_collision:
  "ReplaceAll (u @ ''$10'' @ v) ''$1'' a = ReplaceAll u ''$1'' a @ a @ ''0'' @ ReplaceAll v ''$1'' a
   \<and> substitute (a # rest) (u @ ''$10'' @ v) =
       substFrom 1 rest (ReplaceAll u ''$1'' a @ a @ ''0'' @ ReplaceAll v ''$1'' a)
   \<and> (a \<noteq> [] \<and> hd a \<notin> set ''0123456789'' \<and> CHR ''$'' \<notin> set a \<longrightarrow>
        substitute (a # rest) (u @ ''$10'' @ v) =
          substitute (a # rest) u @ a @ ''0'' @ substitute (a # rest) v)
   \<and> substitute [''a'', ''b'', ''c'', ''d'', ''e'', ''f'', ''g'', ''h'', ''i'', ''j''] ''echo $10''
       = ''echo a0''"
proof (intro conjI impI)
  show pass: "ReplaceAll (u @ ''$10'' @ v) ''$1'' a =
      ReplaceAll u ''$1'' a @ a @ ''0'' @ ReplaceAll v ''$1'' a"
    by (simp only: ReplaceAll_dollar_1 replaceFrom_dollar_10)
  have "substitute (a # rest) (u @ ''$10'' @ v) =
      substFrom 1 rest (ReplaceAll (u @ ''$10'' @ v) ''$1'' a)"
    by (simp add: substitute_def placeholder_def Itoa.simps digit_def)
  with pass show "substitute (a # rest) (u @ ''$10'' @ v) =
       substFrom 1 rest (ReplaceAll u ''$1'' a @ a @ ''0'' @ ReplaceAll v ''$1'' a)"
    by simp
  show "substitute [''a'', ''b'', ''c'', ''d'', ''e'', ''f'', ''g'', ''h'', ''i'', ''j''] ''echo $10''
       = ''echo a0''"
    by (simp add: eval_strings)
next
  assume "a \<noteq> [] \<and> hd a \<notin> set ''0123456789'' \<and> CHR ''$'' \<notin> set a"
  then show "substitute (a # rest) (u @ ''$10'' @ v) =
          substitute (a # rest) u @ a @ ''0'' @ substitute (a # rest) v"
    by (intro substitute_dollar_10_plain) simp_all
qed

theorem C10_dollar_10_collision_witness:
  "''A'' \<noteq> [] \<and> hd ''A'' \<notin> set ''0123456789'' \<and> CHR ''$'' \<notin> set ''A''
   \<and> ReplaceAll (''x '' @ ''$10'' @ '' $1'') ''$1'' ''A'' = ''x A0 A''
   \<and> substitute [''A'', ''B''] (''$2 '' @ ''$10'' @ '' $1'') = ''B A0 A''
   \<and> substitute [''A'', ''B''] ''$2 '' @ ''A'' @ ''0'' @ substitute [''A'', ''B''] '' $1'' = ''B A0 A''"
proof -
  have h: "''A'' \<noteq> [] \<and> hd ''A'' \<notin> set ''0123456789'' \<and> CHR ''$'' \<notin> set ''A''"
    by simp
  from C10_dollar_10_collision [of "''x ''" "'' $1''" "''A''"]
    C10_dollar_10_collision [of "''$2 ''" "'' $1''" "''A''" "[''B'']"] h
  show ?thesis by (simp add: eval_strings)
qed

theorem C10_counterexample:
  "ReplaceAll ''echo $10'' ''$1'' ''$1'' = ''echo $10''
   \<and> substitute [''$1'', ''b'', ''c'', ''d'', ''e'', ''f'', ''g'', ''h'', ''i'', ''J''] ''echo $10''
       = ''echo J''"
  by (simp add: eval_strings)

text \<open>
  C3. When the template after substitution is empty or holds white space only,
  the tokenization yields no field, \<open>runCommand\<close> prints \<open>Empty command\<close> and
  stops: the trace holds no child process and nothing else, and the process
  exits with status 0.
\<close>

theorem C3_empty_command:
  assumes "Get b alias = Some t"
    and "list_all (\<lambda>(r, bs). IsSpace r) (runes (substitute args t))"
  shows "Fields (substitute args t) = []
       \<and> runCommand e b alias args = [Stdout (line ''Empty command'')]
       \<and> (open_err e = None \<and> init_err e = None \<and> \<not> flagSyntax (alias # args) \<longrightarrow>
            main e b (''run'' # alias # args) = Some (b, [Stdout (line ''Empty command'')], 0))"
proof -
  from assms(2) have f: "Fields (substitute args t) = []" by (simp add: Fields_empty)
  with assms(1) have r: "runCommand e b alias args = [Stdout (line ''Empty command'')]"
    by (simp add: runCommand_def)
  from f r show ?thesis by (simp add: main_run)
qed

theorem C3_empty_command_witness:
  "Get [(''x'', '' $1  '')] ''x'' = Some '' $1  ''
   \<and> list_all (\<lambda>(r, bs). IsSpace r) (runes (substitute [[CHR 0x09]] '' $1  ''))
   \<and> runCommand no_faults [(''x'', '' $1  '')] ''x'' [[CHR 0x09]] = [Stdout (line ''Empty command'')]
   \<and> main no_faults [(''x'', '' $1  '')] [''run'', ''x'', [CHR 0x09]]
       = Some ([(''x'', '' $1  '')], [Stdout (line ''Empty command'')], 0)"
proof -
  have h1: "Get [(''x'', '' $1  '')] ''x'' = Some '' $1  ''" by (simp add: Get_def)
  have h2: "list_all (\<lambda>(r, bs). IsSpace r) (runes (substitute [[CHR 0x09]] '' $1  ''))"
    by (simp add: eval_strings)
  have h3: "\<not> flagSyntax [''x'', [CHR 0x09]]" by (simp add: flagSyntax_def HasPrefix_def)
  from C3_empty_command [OF h1 h2, of no_faults] h1 h2 h3 show ?thesis
    by (simp add: no_faults_def)
qed

text \<open>
  C2. When the alias of a \<open>run\<close> invocation is not in the store, the command
  prints \<open>Error retrieving command: alias not found\<close> and nothing else: the trace
  is that one line whatever the arguments are (no substitution, no tokenization),
  it holds no child process, and the process exits with status 0.
\<close>

theorem C2_run_unknown_alias:
  assumes "Get b alias = None"
  shows "runCommand e b alias args = [Stdout (line ''Error retrieving command: alias not found'')]
       \<and> (open_err e = None \<and> init_err e = None \<and> \<not> flagSyntax (alias # args) \<longrightarrow>
            main e b (''run'' # alias # args) =
              Some (b, [Stdout (line ''Error retrieving command: alias not found'')], 0))"
proof -
  from assms have "runCommand e b alias args =
      [Stdout (line ''Error retrieving command: alias not found'')]"
    by (simp add: runCommand_def)
  then show ?thesis by (simp add: main_run)
qed

theorem C2_run_unknown_alias_witness:
  "Get [(''g'', ''git status'')] ''nope'' = None
   \<and> runCommand no_faults [(''g'', ''git status'')] ''nope'' [''a'', ''b'']
       = [Stdout (line ''Error retrieving command: alias not found'')]
   \<and> main no_faults [(''g'', ''git status'')] [''run'', ''nope'', ''a'', ''b'']
       = Some ([(''g'', ''git status'')], [Stdout (line ''Error retrieving command: alias not found'')], 0)"
proof -
  have h1: "Get [(''g'', ''git status'')] ''nope'' = None" by (simp add: Get_def)
  have h2: "\<not> flagSyntax [''nope'', ''a'', ''b'']" by (simp add: flagSyntax_def HasPrefix_def)
  from C2_run_unknown_alias [OF h1, of no_faults "[''a'', ''b'']"] h1 h2 show ?thesis
    by (simp add: no_faults_def)
qed

text \<open>
  C4. When the alias is not in the store, \<open>edit\<close> prints
  \<open>Error editing command: alias not found\<close> and leaves the store as it was, so no
  entry is created (also seen from \<open>main\<close>: same store, exit status 0). When the
  alias is in the store and the storage transaction does not fail, \<open>edit\<close>
  overwrites its template and changes no other alias.
\<close>

theorem C4_edit:
  "(Get b a = None \<longrightarrow>
      editCmd_Run e b (a # rest) =
        Some (b, [Stdout (line ''Error editing command: alias not found'')])
      \<and> (open_err e = None \<and> init_err e = None \<and> \<not> flagSyntax (a # w # ws) \<longrightarrow>
           main e b (''edit'' # a # w # ws) =
             Some (b, [Stdout (line ''Error editing command: alias not found'')], 0)))
   \<and> (Get b a \<noteq> None \<and> putCheck a (Join rest '' '') = None \<and> commit_err e = None \<longrightarrow>
        editCmd_Run e b (a # rest) =
          Some (putEntry a (Join rest '' '') b,
                [Stdout (line (''Command updated for alias: '' @ a))])
        \<and> Get (putEntry a (Join rest '' '') b) a = Some (Join rest '' '')
        \<and> (\<forall>k. k \<noteq> a \<longrightarrow> Get (putEntry a (Join rest '' '') b) k = Get b k))"
proof (intro conjI impI allI)
  assume "Get b a = None"
  then show "editCmd_Run e b (a # rest) =
        Some (b, [Stdout (line ''Error editing command: alias not found'')])"
    by (simp add: editCmd_Run_cases del: editCmd_Run.simps)
next
  assume absent: "Get b a = None"
    and "open_err e = None \<and> init_err e = None \<and> \<not> flagSyntax (a # w # ws)"
  moreover from absent have "editCmd_Run e b (a # w # ws) =
        Some (b, [Stdout (line ''Error editing command: alias not found'')])"
    by (simp add: editCmd_Run_cases del: editCmd_Run.simps)
  ultimately show "main e b (''edit'' # a # w # ws) =
             Some (b, [Stdout (line ''Error editing command: alias not found'')], 0)"
    by (intro main_edit) simp_all
next
  assume "Get b a \<noteq> None \<and> putCheck a (Join rest '' '') = None \<and> commit_err e = None"
  then show "editCmd_Run e b (a # rest) =
          Some (putEntry a (Join rest '' '') b,
                [Stdout (line (''Command updated for alias: '' @ a))])"
    by (auto simp add: editCmd_Run_cases simp del: editCmd_Run.simps)
next
  show "Get (putEntry a (Join rest '' '') b) a = Some (Join rest '' '')"
    by (simp add: Get_putEntry)
next
  fix k assume "k \<noteq> a"
  then show "Get (putEntry a (Join rest '' '') b) k = Get b k"
    by (simp add: Get_putEntry)
qed

theorem C4_edit_witness:
  "Get [] ''nope'' = None
   \<and> editCmd_Run no_faults [] [''nope'', ''echo'', ''hi'']
       = Some ([], [Stdout (line ''Error editing command: alias not found'')])
   \<and> main no_faults [] [''edit'', ''nope'', ''echo'', ''hi'']
       = Some ([], [Stdout (line ''Error editing command: alias not found'')], 0)
   \<and> editCmd_Run no_faults [(''g'', ''git status'')] [''g'', ''git'', ''log'']
       = Some ([(''g'', ''git log'')], [Stdout (line ''Command updated for alias: g'')])
   \<and> Get [(''g'', ''git log'')] ''g'' = Some ''git log''"
proof -
  have h1: "Get [] ''nope'' = None" by (simp add: Get_def)
  have h2: "\<not> flagSyntax [''nope'', ''echo'', ''hi'']" by (simp add: flagSyntax_def HasPrefix_def)
  have h3: "Get [(''g'', ''git status'')] ''g'' \<noteq> None" by (simp add: Get_def)
  have h4: "putCheck ''g'' (Join [''git'', ''log''] '' '') = None"
    by (simp add: putCheck_def MaxKeySize_def MaxValueSize_def)
  from C4_edit [of "[]" "''nope''" no_faults "[''echo'', ''hi'']" "''echo''" "[''hi'']"]
    C4_edit [of "[(''g'', ''git status'')]" "''g''" no_faults "[''git'', ''log'']"]
    h1 h2 h3 h4
  show ?thesis by (simp add: no_faults_def Get_def del: editCmd_Run.simps)
qed

text \<open>
  C5. For every alias and every two command texts, \<open>save\<close> of the first and then
  \<open>save\<close> of the second both succeed, whatever the store held before (there is
  no uniqueness error: the only errors of \<open>save\<close> are those of the storage
  transaction, a key or value the store refuses or a failed commit), and the
  store then maps the alias to the second text: the last \<open>save\<close> wins.
\<close>

theorem C5_save_overwrites:
  assumes "putCheck a (Join xs '' '') = None" and "putCheck a (Join ys '' '') = None"
    and "commit_err e1 = None" and "commit_err e2 = None"
  shows "saveCmd_Run e1 b (a # xs) =
           Some (putEntry a (Join xs '' '') b, [Stdout (line (''Command saved with alias: '' @ a))])
       \<and> saveCmd_Run e2 (putEntry a (Join xs '' '') b) (a # ys) =
           Some (putEntry a (Join ys '' '') (putEntry a (Join xs '' '') b),
                 [Stdout (line (''Command saved with alias: '' @ a))])
       \<and> Get (putEntry a (Join ys '' '') (putEntry a (Join xs '' '') b)) a = Some (Join ys '' '')"
  using assms by (simp add: saveCmd_Run_cases Get_putEntry del: saveCmd_Run.simps)

theorem C5_save_overwrites_witness:
  "putCheck ''g'' (Join [''X''] '' '') = None \<and> putCheck ''g'' (Join [''Y''] '' '') = None
   \<and> commit_err no_faults = None
   \<and> saveCmd_Run no_faults [] [''g'', ''X''] = Some ([(''g'', ''X'')], [Stdout (line ''Command saved with alias: g'')])
   \<and> saveCmd_Run no_faults [(''g'', ''X'')] [''g'', ''Y''] = Some ([(''g'', ''Y'')], [Stdout (line ''Command saved with alias: g'')])
   \<and> Get [(''g'', ''Y'')] ''g'' = Some ''Y''"
proof -
  have h1: "putCheck ''g'' (Join [''X''] '' '') = None"
    by (simp add: putCheck_def MaxKeySize_def MaxValueSize_def)
  have h2: "putCheck ''g'' (Join [''Y''] '' '') = None"
    by (simp add: putCheck_def MaxKeySize_def MaxValueSize_def)
  have h3: "commit_err no_faults = None" by (simp add: no_faults_def)
  from C5_save_overwrites [OF h1 h2 h3 h3, of "[]"] h1 h2 h3 show ?thesis
    by (simp del: saveCmd_Run.simps)
qed

text \<open>
  C6. After a \<open>save\<close> of alias \<open>a\<close> with command text \<open>c\<close> that succeeded,
  \<open>list\<close> visits the pair \<open>(a, c)\<close> and prints its line \<open>a: c\<close>. Only membership
  is stated, not the place in the listing.
\<close>

theorem C6_save_then_list:
  assumes "saveCmd_Run e b (a # xs) =
             Some (b', [Stdout (line (''Command saved with alias: '' @ a))])"
  shows "(a, Join xs '' '') \<in> set (ForEach b')
       \<and> listCmd_Run e' b' args =
           Some (b', map (\<lambda>(k, v). Stdout (line (k @ '': '' @ v))) (ForEach b'))
       \<and> Stdout (line (a @ '': '' @ Join xs '' ''))
           \<in> set (map (\<lambda>(k, v). Stdout (line (k @ '': '' @ v))) (ForEach b'))"
proof -
  from assms have b': "b' = putEntry a (Join xs '' '') b"
    by (auto simp: saveCmd_Run_cases line_def simp del: saveCmd_Run.simps
        split: option.splits)
  then have mem: "(a, Join xs '' '') \<in> set (ForEach b')"
    by (simp add: ForEach_def putEntry_mem)
  then have "(\<lambda>(k, v). Stdout (line (k @ '': '' @ v))) (a, Join xs '' '')
      \<in> set (map (\<lambda>(k, v). Stdout (line (k @ '': '' @ v))) (ForEach b'))"
    unfolding set_map by (rule imageI)
  with mem show ?thesis by (simp add: listCmd_Run_def)
qed

theorem C6_save_then_list_witness:
  "saveCmd_Run no_faults [(''a'', ''ls'')] [''g'', ''git'', ''status'']
     = Some ([(''a'', ''ls''), (''g'', ''git status'')], [Stdout (line ''Command saved with alias: g'')])
   \<and> (''g'', ''git status'') \<in> set (ForEach [(''a'', ''ls''), (''g'', ''git status'')])
   \<and> listCmd_Run no_faults [(''a'', ''ls''), (''g'', ''git status'')] []
     = Some ([(''a'', ''ls''), (''g'', ''git status'')],
             [Stdout (line ''a: ls''), Stdout (line ''g: git status'')])"
proof -
  have h: "saveCmd_Run no_faults [(''a'', ''ls'')] [''g'', ''git'', ''status'']
     = Some ([(''a'', ''ls''), (''g'', ''git status'')], [Stdout (line (''Command saved with alias: '' @ ''g''))])"
    by (simp add: saveCmd_Run_cases putCheck_def MaxKeySize_def MaxValueSize_def no_faults_def
        byte_def del: saveCmd_Run.simps)
  from C6_save_then_list [OF h, of no_faults "[]"] h show ?thesis
    by (simp add: ForEach_def del: saveCmd_Run.simps)
qed

text \<open>
  C7. The \<open>Run\<close> closure of \<open>rootCmd\<close> does for a non-empty argument list what the
  one of \<open>run\<close> does, but a command line whose first word names no subcommand
  does not reach it: \<open>rootCmd\<close> has subcommands and declares no \<open>Args\<close>
  validator, so the command-line library rejects the word as an unknown command.
  With the alias \<open>g\<close> stored as \<open>echo $1\<close>, the words \<open>g a\<close> print the usage
  error and exit with status 1, and nothing is started; the words \<open>run g a\<close>
  start \<open>echo a\<close> and exit with status 0.
\<close>

theorem C7_bare_invocation:
  "rootCmd_Run e b (alias # args) = runCmd_Run e b (alias # args)
   \<and> main no_faults [(''g'', ''echo $1'')] [''g'', ''a'']
       = Some ([(''g'', ''echo $1'')],
               [Usage (UnknownCommand ''g''), Println (UnknownCommand ''g'')], 1)
   \<and> main no_faults [(''g'', ''echo $1'')] [''run'', ''g'', ''a'']
       = Some ([(''g'', ''echo $1'')], [Spawn ''echo'' [''a'']], 0)"
proof (intro conjI)
  show "rootCmd_Run e b (alias # args) = runCmd_Run e b (alias # args)" by simp
  show "main no_faults [(''g'', ''echo $1'')] [''g'', ''a'']
       = Some ([(''g'', ''echo $1'')],
               [Usage (UnknownCommand ''g''), Println (UnknownCommand ''g'')], 1)"
    by (simp add: eval_dispatch no_faults_def)
  have "runCommand no_faults [(''g'', ''echo $1'')] ''g'' [''a''] = [Spawn ''echo'' [''a'']]"
    by (simp add: runCommand_def Get_def no_faults_def eval_strings)
  moreover have "\<not> flagSyntax [''g'', ''a'']" by (simp add: flagSyntax_def HasPrefix_def)
  ultimately show "main no_faults [(''g'', ''echo $1'')] [''run'', ''g'', ''a'']
       = Some ([(''g'', ''echo $1'')], [Spawn ''echo'' [''a'']], 0)"
    by (simp add: main_run no_faults_def)
qed

text \<open>
  C8 (as amended). The exit status is not 0 exactly when the store cannot be
  opened or its bucket cannot be created at start-up (\<open>log.Fatal\<close>), or the
  command-line library reports a usage error; it is then 1. Every error inside
  a handler is printed and leaves the exit status 0: a storage transaction that
  fails in \<open>save\<close> (a key or value the store refuses, a failed commit), a lookup
  that finds no alias in \<open>run\<close>, and a child process that cannot be started or
  fails.
\<close>

theorem C8_exit_status:
  assumes "main e b argv = Some (b', out, code)"
  shows "(code \<noteq> 0) = (open_err e \<noteq> None \<or> init_err e \<noteq> None \<or> usageError argv \<noteq> None)
       \<and> (code = 0 \<or> code = 1)
       \<and> (open_err e = None \<and> init_err e = None \<and> \<not> flagSyntax (a # w # ws)
            \<and> (putCheck a (Join (w # ws) '' '') = Some err
                \<or> putCheck a (Join (w # ws) '' '') = None \<and> commit_err e = Some err) \<longrightarrow>
            main e b (''save'' # a # w # ws) =
              Some (b, [Stdout (line (''Error saving command: '' @ err))], 0))
       \<and> (open_err e = None \<and> init_err e = None \<and> \<not> flagSyntax (a # args)
            \<and> Get b a = None \<longrightarrow>
            main e b (''run'' # a # args) =
              Some (b, [Stdout (line ''Error retrieving command: alias not found'')], 0))
       \<and> (open_err e = None \<and> init_err e = None \<and> \<not> flagSyntax (a # args)
            \<and> Get b a = Some t \<and> Fields (substitute args t) = prog # pargs
            \<and> run_err e prog pargs = Some err \<longrightarrow>
            main e b (''run'' # a # args) =
              Some (b, [Spawn prog pargs, Stdout (line (''Error executing command: '' @ err))], 0))"
proof (intro conjI impI)
  show "(code \<noteq> 0) = (open_err e \<noteq> None \<or> init_err e \<noteq> None \<or> usageError argv \<noteq> None)"
    using assms by (rule main_exit_code(1))
  show "code = 0 \<or> code = 1"
    using assms by (rule main_exit_code(2))
next
  assume h: "open_err e = None \<and> init_err e = None \<and> \<not> flagSyntax (a # w # ws)
            \<and> (putCheck a (Join (w # ws) '' '') = Some err
                \<or> putCheck a (Join (w # ws) '' '') = None \<and> commit_err e = Some err)"
  then have "saveCmd_Run e b (a # w # ws) =
      Some (b, [Stdout (line (''Error saving command: '' @ err))])"
    by (auto simp: saveCmd_Run_cases simp del: saveCmd_Run.simps)
  with h show "main e b (''save'' # a # w # ws) =
              Some (b, [Stdout (line (''Error saving command: '' @ err))], 0)"
    by (intro main_save) simp_all
next
  assume h: "open_err e = None \<and> init_err e = None \<and> \<not> flagSyntax (a # args)
            \<and> Get b a = None"
  then have "runCommand e b a args =
      [Stdout (line ''Error retrieving command: alias not found'')]"
    by (simp add: runCommand_def)
  with h show "main e b (''run'' # a # args) =
              Some (b, [Stdout (line ''Error retrieving command: alias not found'')], 0)"
    by (simp add: main_run)
next
  assume h: "open_err e = None \<and> init_err e = None \<and> \<not> flagSyntax (a # args)
            \<and> Get b a = Some t \<and> Fields (substitute args t) = prog # pargs
            \<and> run_err e prog pargs = Some err"
  then have "runCommand e b a args =
      [Spawn prog pargs, Stdout (line (''Error executing command: '' @ err))]"
    by (simp add: runCommand_def)
  with h show "main e b (''run'' # a # args) =
              Some (b, [Spawn prog pargs, Stdout (line (''Error executing command: '' @ err))], 0)"
    by (simp add: main_run)
qed

theorem C8_exit_status_witness:
  "main faulty [(''g'', ''false'')] [''save'', ''h'']
     = Some ([(''g'', ''false'')], [Usage (TooFewArgs 2 1), Println (TooFewArgs 2 1)], 1)
   \<and> usageError [''save'', ''h''] = Some (TooFewArgs 2 1)
   \<and> main faulty [(''g'', ''false'')] [''save'', ''h'', ''x'']
     = Some ([(''g'', ''false'')], [Stdout (line ''Error saving command: disk full'')], 0)
   \<and> main faulty [(''g'', ''false'')] [''run'', ''nope'']
     = Some ([(''g'', ''false'')], [Stdout (line ''Error retrieving command: alias not found'')], 0)
   \<and> main faulty [(''g'', ''false'')] [''run'', ''g'']
     = Some ([(''g'', ''false'')],
             [Spawn ''false'' [], Stdout (line ''Error executing command: exit status 1'')], 0)"
proof -
  have h: "main faulty [(''g'', ''false'')] [''save'', ''h'']
     = Some ([(''g'', ''false'')], [Usage (TooFewArgs 2 1), Println (TooFewArgs 2 1)], 1)"
    by (simp add: eval_dispatch faulty_def)
  have u: "usageError [''save'', ''h''] = Some (TooFewArgs 2 1)"
    by (simp add: eval_dispatch)
  have f1: "\<not> flagSyntax [''h'', ''x'']" and f2: "\<not> flagSyntax [''nope'']"
    and f3: "\<not> flagSyntax [''g'']"
    by (simp_all add: flagSyntax_def HasPrefix_def)
  have p: "putCheck ''h'' (Join [''x''] '' '') = None"
    by (simp add: putCheck_def MaxKeySize_def MaxValueSize_def)
  have g1: "Get [(''g'', ''false'')] ''nope'' = None"
    and g2: "Get [(''g'', ''false'')] ''g'' = Some ''false''"
    by (simp_all add: Get_def)
  have fs: "Fields (substitute [] ''false'') = [''false'']"
    by (simp add: eval_strings)
  from C8_exit_status [OF h, where a = "''h''" and w = "''x''" and ws = "[]" and err = "''disk full''"]
    C8_exit_status [OF h, where a = "''nope''" and args = "[]"]
    C8_exit_status [OF h, where a = "''g''" and args = "[]" and err = "''exit status 1''"
      and t = "''false''" and prog = "''false''" and pargs = "[]"]
    h u f1 f2 f3 p g1 g2 fs
  show ?thesis by (simp add: faulty_def)
qed

theorem C8_counterexample:
  "main (no_faults\<lparr>open_err := Some ''timeout''\<rparr>) [] [''list''] = Some ([], [Fatal ''timeout''], 1)
   \<and> usageError [''list''] = None"
  by (simp add: eval_dispatch no_faults_def)

end
